theory Spec2Isabelle
  imports Main
begin

section \<open>JavaScript values and arrays\<close>

text \<open>
  The board of \<^verbatim>\<open>TicTacToe.tsx\<close> is a JavaScript array typed \<^verbatim>\<open>(string | null)[]\<close>.
  Reading an index that the array does not hold gives \<^verbatim>\<open>undefined\<close>, and writing
  one extends the array, the skipped indices becoming holes.  A hole reads as
  \<^verbatim>\<open>undefined\<close>, is copied as \<^verbatim>\<open>undefined\<close> by the spread \<^verbatim>\<open>[...board]\<close>, and
  \<^verbatim>\<open>every\<close> skips it, which is what the callback \<^verbatim>\<open>cell !== null\<close> answers for
  \<^verbatim>\<open>undefined\<close> as well; so a hole is modelled as the element \<open>Undefined\<close>.
  Indices are array indices (natural numbers).
\<close>

datatype jsval = Undefined | Null | Str string

text \<open>Truthiness, as \<^verbatim>\<open>if (v)\<close>, \<^verbatim>\<open>!v\<close> and \<^verbatim>\<open>v && ...\<close> test it: \<^verbatim>\<open>undefined\<close>,
  \<^verbatim>\<open>null\<close> and the empty string are falsy.\<close>

fun truthy :: "jsval \<Rightarrow> bool" where
  "truthy Undefined = False"
| "truthy Null = False"
| "truthy (Str s) = (s \<noteq> [])"

text \<open>\<^verbatim>\<open>arr[i]\<close> as an expression.\<close>

definition js_get :: "jsval list \<Rightarrow> nat \<Rightarrow> jsval" where
  "js_get arr i = (if i < length arr then arr ! i else Undefined)"

text \<open>\<^verbatim>\<open>arr[i] = v\<close> on a copy of the array.\<close>

definition js_set :: "jsval list \<Rightarrow> nat \<Rightarrow> jsval \<Rightarrow> jsval list" where
  "js_set arr i v =
     (if i < length arr then arr[i := v]
      else arr @ replicate (i - length arr) Undefined @ [v])"

section \<open>The game state (TicTacToe.tsx)\<close>

text \<open>\<^verbatim>\<open>currentPlayer: 'X' | 'O'\<close>, and the string a player writes into a cell.\<close>

datatype xo = MarkX | MarkO

fun str_of :: "xo \<Rightarrow> jsval" where
  "str_of MarkX = Str ''X''"
| "str_of MarkO = Str ''O''"

text \<open>The counters are JavaScript numbers (IEEE doubles) that start at 0 and grow by 1;
  a counter is modelled as the integer it holds.  On the safe integers, those of
  magnitude below \<open>2^53\<close> (\<^verbatim>\<open>Number.isSafeInteger\<close>), every integer is a double and
  \<^verbatim>\<open>+= 1\<close> is exact, so the integer \<open>+ 1\<close> of the model is the code's; from \<open>2^53\<close> on
  the code's \<^verbatim>\<open>+= 1\<close> rounds and the model says nothing about it.  What is proved about
  the counters' arithmetic is stated for safe counters.\<close>

record Score =
  player :: int
  albert :: int
  draws :: int

definition safeInteger :: "int \<Rightarrow> bool" where
  "safeInteger n = (- (2 ^ 53) < n \<and> n < 2 ^ 53)"

definition safeScore :: "Score \<Rightarrow> bool" where
  "safeScore sc = (safeInteger (player sc) \<and> safeInteger (albert sc) \<and> safeInteger (draws sc))"

record GameState =
  board :: "jsval list"
  currentPlayer :: xo
  winner :: jsval
  gameOver :: bool
  score :: Score

text \<open>The callbacks the component receives as props, as values: what a transition
  emits, in the order of the calls.\<close>

datatype result = Win | Lose | Draw

datatype callback = OnGameEnd result | OnMove GameState

text \<open>The state \<^verbatim>\<open>useState\<close> starts from.\<close>

definition initialState :: GameState where
  "initialState =
     \<lparr>board = replicate 9 Null, currentPlayer = MarkX, winner = Null, gameOver = False,
      score = \<lparr>player = 0, albert = 0, draws = 0\<rparr>\<rparr>"

subsection \<open>checkWinner of the game component\<close>

definition lines :: "(nat \<times> nat \<times> nat) list" where
  "lines = [(0, 1, 2), (3, 4, 5), (6, 7, 8),
            (0, 3, 6), (1, 4, 7), (2, 5, 8),
            (0, 4, 8), (2, 4, 6)]"

text \<open>The \<^verbatim>\<open>for\<close> loop over \<^verbatim>\<open>lines\<close>: the first line that is complete decides.\<close>

fun checkWinner_loop :: "jsval list \<Rightarrow> (nat \<times> nat \<times> nat) list \<Rightarrow> jsval" where
  "checkWinner_loop brd [] = Null"
| "checkWinner_loop brd ((a, b, c) # rest) =
     (if truthy (js_get brd a) \<and> js_get brd a = js_get brd b \<and> js_get brd a = js_get brd c
      then js_get brd a
      else checkWinner_loop brd rest)"

definition checkWinner :: "jsval list \<Rightarrow> jsval" where
  "checkWinner brd = checkWinner_loop brd lines"

subsection \<open>makeMove, resetGame, resetScore\<close>

text \<open>Each transition returns the new state (the argument of \<^verbatim>\<open>setGameState\<close>) and the
  callbacks it made.  The early \<^verbatim>\<open>return\<close> of \<^verbatim>\<open>makeMove\<close> sets no state and calls
  nothing.\<close>

definition makeMove :: "GameState \<Rightarrow> nat \<Rightarrow> GameState \<times> callback list" where
  "makeMove gs index =
     (if truthy (js_get (board gs) index) \<or> gameOver gs then (gs, [])
      else
        let newBoard = js_set (board gs) index (str_of (currentPlayer gs));
            w = checkWinner newBoard;
            isDraw = (\<not> truthy w \<and> list_all (\<lambda>cell. cell \<noteq> Null) newBoard);
            over = (w \<noteq> Null \<or> isDraw);
            (newScore, ended) =
              (if over then
                 (if w = Str ''X'' then
                    ((score gs)\<lparr>player := player (score gs) + 1\<rparr>, [OnGameEnd Win])
                  else if w = Str ''O'' then
                    ((score gs)\<lparr>albert := albert (score gs) + 1\<rparr>, [OnGameEnd Lose])
                  else
                    ((score gs)\<lparr>draws := draws (score gs) + 1\<rparr>, [OnGameEnd Draw]))
               else (score gs, []));
            newState =
              \<lparr>board = newBoard,
               currentPlayer = (if currentPlayer gs = MarkX then MarkO else MarkX),
               winner = w, gameOver = over, score = newScore\<rparr>
        in (newState, ended @ [OnMove newState]))"

definition resetGame :: "GameState \<Rightarrow> GameState \<times> callback list" where
  "resetGame gs =
     (let newState =
            \<lparr>board = replicate 9 Null, currentPlayer = MarkX, winner = Null,
             gameOver = False, score = score gs\<rparr>
      in (newState, [OnMove newState]))"

definition resetScore :: "GameState \<Rightarrow> GameState \<times> callback list" where
  "resetScore gs =
     (let newState = gs\<lparr>score := \<lparr>player = 0, albert = 0, draws = 0\<rparr>\<rparr>
      in (newState, [OnMove newState]))"

text \<open>The state transitions alone, under the names the specification gives them.\<close>

definition applyMove :: "GameState \<Rightarrow> nat \<Rightarrow> GameState" where
  "applyMove gs index = fst (makeMove gs index)"

definition resetBoard :: "GameState \<Rightarrow> GameState" where
  "resetBoard gs = fst (resetGame gs)"

definition zeroScore :: "GameState \<Rightarrow> GameState" where
  "zeroScore gs = fst (resetScore gs)"

text \<open>An empty cell holds \<^verbatim>\<open>null\<close>: the draw test of \<^verbatim>\<open>makeMove\<close>,
  \<^verbatim>\<open>newBoard.every(cell => cell !== null)\<close>, on a board.\<close>

definition noEmptyCell :: "jsval list \<Rightarrow> bool" where
  "noEmptyCell brd = list_all (\<lambda>cell. cell \<noteq> Null) brd"

text \<open>The states the component can be in: the initial one, and what its three
  transitions make of a state it can be in, whatever index a move is given.\<close>

inductive reachable :: "GameState \<Rightarrow> bool" where
  start: "reachable initialState"
| move: "reachable gs \<Longrightarrow> reachable (applyMove gs index)"
| newGame: "reachable gs \<Longrightarrow> reachable (resetBoard gs)"
| scoreReset: "reachable gs \<Longrightarrow> reachable (zeroScore gs)"

text \<open>A board as the game keeps it: nine cells, each \<^verbatim>\<open>null\<close>, \<^verbatim>\<open>'X'\<close> or \<^verbatim>\<open>'O'\<close>; and
  the states reached when every move is given one of the indices 0..8, as the cell
  buttons and \<^verbatim>\<open>getAlbertMove\<close> give them.\<close>

definition wellFormed :: "jsval list \<Rightarrow> bool" where
  "wellFormed brd =
     (length brd = 9
      \<and> list_all (\<lambda>cell. cell = Null \<or> cell = Str ''X'' \<or> cell = Str ''O'') brd)"

inductive inPlay :: "GameState \<Rightarrow> bool" where
  start: "inPlay initialState"
| move: "inPlay gs \<Longrightarrow> index < 9 \<Longrightarrow> inPlay (applyMove gs index)"
| newGame: "inPlay gs \<Longrightarrow> inPlay (resetBoard gs)"
| scoreReset: "inPlay gs \<Longrightarrow> inPlay (zeroScore gs)"

section \<open>The host (App.tsx)\<close>

subsection \<open>checkWinner of the host\<close>

definition lines_App :: "(nat \<times> nat \<times> nat) list" where
  "lines_App = [(0, 1, 2), (3, 4, 5), (6, 7, 8),
                (0, 3, 6), (1, 4, 7), (2, 5, 8),
                (0, 4, 8), (2, 4, 6)]"

fun checkWinner_App_loop :: "jsval list \<Rightarrow> (nat \<times> nat \<times> nat) list \<Rightarrow> jsval" where
  "checkWinner_App_loop brd [] = Null"
| "checkWinner_App_loop brd ((a, b, c) # rest) =
     (if truthy (js_get brd a) \<and> js_get brd a = js_get brd b \<and> js_get brd a = js_get brd c
      then js_get brd a
      else checkWinner_App_loop brd rest)"

definition checkWinner_App :: "jsval list \<Rightarrow> jsval" where
  "checkWinner_App brd = checkWinner_App_loop brd lines_App"

subsection \<open>getAlbertMove\<close>

text \<open>The five stages of \<^verbatim>\<open>getAlbertMove\<close>.  Each \<^verbatim>\<open>for\<close> loop is a function of its
  counter and answers the index it returns from, or \<open>None\<close> when it runs to its end.\<close>

function winLoop :: "jsval list \<Rightarrow> nat \<Rightarrow> nat option" where
  "winLoop brd i =
     (if i < 9 then
        (if \<not> truthy (js_get brd i) then
           (if checkWinner_App (js_set brd i (Str ''O'')) = Str ''O'' then Some i
            else winLoop brd (i + 1))
         else winLoop brd (i + 1))
      else None)"
  by pat_completeness auto
termination
  by (relation "measure (\<lambda>(brd, i). 9 - i)") auto

function blockLoop :: "jsval list \<Rightarrow> nat \<Rightarrow> nat option" where
  "blockLoop brd i =
     (if i < 9 then
        (if \<not> truthy (js_get brd i) then
           (if checkWinner_App (js_set brd i (Str ''X'')) = Str ''X'' then Some i
            else blockLoop brd (i + 1))
         else blockLoop brd (i + 1))
      else None)"
  by pat_completeness auto
termination
  by (relation "measure (\<lambda>(brd, i). 9 - i)") auto

fun cornerLoop :: "jsval list \<Rightarrow> nat list \<Rightarrow> nat option" where
  "cornerLoop brd [] = None"
| "cornerLoop brd (corner # rest) =
     (if \<not> truthy (js_get brd corner) then Some corner else cornerLoop brd rest)"

function anyLoop :: "jsval list \<Rightarrow> nat \<Rightarrow> nat option" where
  "anyLoop brd i =
     (if i < 9 then (if \<not> truthy (js_get brd i) then Some i else anyLoop brd (i + 1))
      else None)"
  by pat_completeness auto
termination
  by (relation "measure (\<lambda>(brd, i). 9 - i)") auto

declare winLoop.simps [simp del] blockLoop.simps [simp del] anyLoop.simps [simp del]

definition getAlbertMove :: "jsval list \<Rightarrow> int" where
  "getAlbertMove brd =
     (case winLoop brd 0 of Some i \<Rightarrow> int i
      | None \<Rightarrow>
     (case blockLoop brd 0 of Some i \<Rightarrow> int i
      | None \<Rightarrow>
     (if \<not> truthy (js_get brd 4) then 4
      else
     (case cornerLoop brd [0, 2, 6, 8] of Some corner \<Rightarrow> int corner
      | None \<Rightarrow>
     (case anyLoop brd 0 of Some i \<Rightarrow> int i
      | None \<Rightarrow> - 1)))))"

subsection \<open>The reference policy of the specification\<close>

text \<open>The opponent policy as the specification words it (section 4.3), to compare
  \<open>getAlbertMove\<close> with.  A cell is empty when it holds no mark.  Placing a mark at an
  empty cell completes a line for that mark when some line of the board so obtained
  holds the mark three times.  The lowest index with a property is the first one in
  ascending order.\<close>

definition emptyCell :: "jsval list \<Rightarrow> nat \<Rightarrow> bool" where
  "emptyCell brd i = (\<not> truthy (js_get brd i))"

definition lineOf :: "jsval list \<Rightarrow> jsval \<Rightarrow> bool" where
  "lineOf brd m =
     list_ex (\<lambda>(a, b, c). js_get brd a = m \<and> js_get brd b = m \<and> js_get brd c = m)
       [(0, 1, 2), (3, 4, 5), (6, 7, 8), (0, 3, 6), (1, 4, 7), (2, 5, 8), (0, 4, 8), (2, 4, 6)]"

definition completesLine :: "jsval list \<Rightarrow> jsval \<Rightarrow> nat \<Rightarrow> bool" where
  "completesLine brd m i = (emptyCell brd i \<and> lineOf (js_set brd i m) m)"

definition chooseMove_reference :: "jsval list \<Rightarrow> jsval \<Rightarrow> jsval \<Rightarrow> nat option" where
  "chooseMove_reference brd opponentMark playerMark =
     (case find (completesLine brd opponentMark) [0..<9] of Some i \<Rightarrow> Some i
      | None \<Rightarrow>
     (case find (completesLine brd playerMark) [0..<9] of Some i \<Rightarrow> Some i
      | None \<Rightarrow>
     (if emptyCell brd 4 then Some 4
      else
     (case find (emptyCell brd) [0, 2, 6, 8] of Some i \<Rightarrow> Some i
      | None \<Rightarrow> find (emptyCell brd) [0..<9]))))"

subsection \<open>Complete lines\<close>

text \<open>A line is complete on a board when its three cells hold the same mark: the test
  of both \<^verbatim>\<open>checkWinner\<close> loops.\<close>

fun complete :: "jsval list \<Rightarrow> nat \<times> nat \<times> nat \<Rightarrow> bool" where
  "complete brd (a, b, c) =
     (truthy (js_get brd a) \<and> js_get brd a = js_get brd b \<and> js_get brd a = js_get brd c)"

text \<open>The first complete line of a board in the order rows, columns, diagonals, and
  the mark it holds.\<close>

definition firstCompleteLine :: "jsval list \<Rightarrow> (nat \<times> nat \<times> nat) option" where
  "firstCompleteLine brd =
     find (\<lambda>(a, b, c). truthy (js_get brd a) \<and> js_get brd a = js_get brd b
                        \<and> js_get brd a = js_get brd c)
       [(0, 1, 2), (3, 4, 5), (6, 7, 8), (0, 3, 6), (1, 4, 7), (2, 5, 8), (0, 4, 8), (2, 4, 6)]"

definition winnerOf :: "jsval list \<Rightarrow> jsval" where
  "winnerOf brd = (case firstCompleteLine brd of None \<Rightarrow> Null | Some (a, b, c) \<Rightarrow> js_get brd a)"

subsection \<open>Move coordination\<close>

text \<open>
  What the host and the component hold between events: the component's game state, the
  host's \<^verbatim>\<open>albertNextMove\<close> (\<open>None\<close> for \<^verbatim>\<open>undefined\<close>), and the callbacks that
  \<^verbatim>\<open>setTimeout\<close> has scheduled and that have not run yet.  Every timeout is scheduled
  with the same delay, so they run in the order they were scheduled; each is kept as
  the board its closure captured.  The source never calls \<^verbatim>\<open>clearTimeout\<close>, so a
  scheduled callback leaves the list only by running.
\<close>

record App =
  game :: GameState
  albertNextMove :: "nat option"
  timers :: "jsval list list"

definition initialApp :: App where
  "initialApp = \<lparr>game = initialState, albertNextMove = None, timers = []\<rparr>"

text \<open>\<^verbatim>\<open>handleGameMove\<close> schedules a timeout when O is to move and the game is not over.\<close>

definition handleGameMove :: "App \<Rightarrow> GameState \<Rightarrow> App" where
  "handleGameMove app gs =
     (if currentPlayer gs = MarkO \<and> \<not> gameOver gs then app\<lparr>timers := timers app @ [board gs]\<rparr>
      else app)"

text \<open>The callback of the oldest timeout runs: it asks \<^verbatim>\<open>getAlbertMove\<close> about the board
  it captured and stores the move unless it is \<open>-1\<close>.\<close>

definition timerFires :: "App \<Rightarrow> App" where
  "timerFires app =
     (case timers app of
        [] \<Rightarrow> app
      | brd # rest \<Rightarrow>
          (let move = getAlbertMove brd; app1 = app\<lparr>timers := rest\<rparr>
           in if move \<noteq> - 1 then app1\<lparr>albertNextMove := Some (nat move)\<rparr> else app1))"

text \<open>\<^verbatim>\<open>handleGameEnd\<close> posts a message (not modelled) and clears \<^verbatim>\<open>albertNextMove\<close>.\<close>

definition handleGameEnd :: "App \<Rightarrow> result \<Rightarrow> App" where
  "handleGameEnd app r = app\<lparr>albertNextMove := None\<rparr>"

fun deliver :: "App \<Rightarrow> callback \<Rightarrow> App" where
  "deliver app (OnGameEnd r) = handleGameEnd app r"
| "deliver app (OnMove gs) = handleGameMove app gs"

text \<open>A transition of the component: its new state is set and the host handles the
  callbacks it made, in order.\<close>

definition commit :: "App \<Rightarrow> GameState \<times> callback list \<Rightarrow> App" where
  "commit app t = foldl deliver (app\<lparr>game := fst t\<rparr>) (snd t)"

text \<open>The body of the component's \<^verbatim>\<open>useEffect\<close>.\<close>

definition albertEffect :: "App \<Rightarrow> App" where
  "albertEffect app =
     (case albertNextMove app of
        None \<Rightarrow> app
      | Some albertMove \<Rightarrow>
          (if currentPlayer (game app) = MarkO \<and> \<not> gameOver (game app)
           then commit app (makeMove (game app) albertMove) else app))"

text \<open>The effect runs after a render in which one of its dependencies
  \<^verbatim>\<open>[albertMove, gameState.currentPlayer, gameState.gameOver]\<close> has changed.  The move it
  makes either changes nothing (the cell is taken) or passes the turn to X, after which
  its guard is false; so one run per event is all that happens.\<close>

definition deps :: "App \<Rightarrow> nat option \<times> xo \<times> bool" where
  "deps app = (albertNextMove app, currentPlayer (game app), gameOver (game app))"

definition afterRender :: "App \<Rightarrow> App \<Rightarrow> App" where
  "afterRender old new = (if deps new = deps old then new else albertEffect new)"

text \<open>The events: a click on a cell button (disabled when the game is over, when O is
  to move, or when the cell holds a mark), on \<^emph>\<open>New Game\<close>, on \<^emph>\<open>Reset Score\<close>, and the
  oldest timeout running.\<close>

datatype event = CellClick nat | NewGameClick | ResetScoreClick | TimerFires

fun step :: "App \<Rightarrow> event \<Rightarrow> App" where
  "step app (CellClick i) =
     (if i < length (board (game app)) \<and> \<not> (gameOver (game app) \<or> currentPlayer (game app) = MarkO
            \<or> truthy (js_get (board (game app)) i))
      then afterRender app (commit app (makeMove (game app) i)) else app)"
| "step app NewGameClick = afterRender app (commit app (resetGame (game app)))"
| "step app ResetScoreClick = afterRender app (commit app (resetScore (game app)))"
| "step app TimerFires = afterRender app (timerFires app)"

definition run :: "App \<Rightarrow> event list \<Rightarrow> App" where
  "run app evs = foldl step app evs"

section \<open>Positions used as examples\<close>

text \<open>X at 0, O at 3, X at 1, O at 4: X to move, and cell 2 completes the top row.\<close>

definition afterFourMoves :: GameState where
  "afterFourMoves = applyMove (applyMove (applyMove (applyMove initialState 0) 3) 1) 4"

text \<open>The board \<^verbatim>\<open>[O,O,_,X,X,_,_,_,_]\<close> of the specification's scenario.\<close>

definition scenarioBoard :: "jsval list" where
  "scenarioBoard = [Str ''O'', Str ''O'', Null, Str ''X'', Str ''X'', Null, Null, Null, Null]"

text \<open>A board on which X has the top row and O holds two cells of the bottom row.\<close>

definition wonBoard :: "jsval list" where
  "wonBoard = [Str ''X'', Str ''X'', Str ''X'', Null, Null, Null, Str ''O'', Str ''O'', Null]"

text \<open>The board after X has opened at cell 0.\<close>

definition openingBoard :: "jsval list" where
  "openingBoard = board (applyMove initialState 0)"

text \<open>X at 0, O at 3, X at 1, O at 4, X at 2: X has won.\<close>

definition xHasWon :: GameState where
  "xHasWon = applyMove afterFourMoves 2"

text \<open>X clicks cell 0, Albert's timeout runs and O lands on cell 4, X clicks cell 1:
  a second timeout is pending for the board \<^verbatim>\<open>[X,X,_,_,O,_,_,_,_]\<close>.\<close>

definition albertThinking :: App where
  "albertThinking = run initialApp [CellClick 0, TimerFires, CellClick 1]"

section \<open>Resets\<close>

text \<open>
  Claim C7.  For every state, the board reset yields nine empty cells, the starting
  player X, no winner, \<open>gameOver\<close> false and the score of the state it was given; the
  score reset yields an all-zero score and leaves board, current player, winner and
  \<open>gameOver\<close> as they were.
\<close>

theorem reset_frame:
  "board (resetBoard gs) = replicate 9 Null
   \<and> length (board (resetBoard gs)) = 9
   \<and> currentPlayer (resetBoard gs) = MarkX
   \<and> currentPlayer (resetBoard gs) = currentPlayer initialState
   \<and> winner (resetBoard gs) = Null
   \<and> gameOver (resetBoard gs) = False
   \<and> score (resetBoard gs) = score gs
   \<and> score (zeroScore gs) = \<lparr>player = 0, albert = 0, draws = 0\<rparr>
   \<and> board (zeroScore gs) = board gs
   \<and> currentPlayer (zeroScore gs) = currentPlayer gs
   \<and> winner (zeroScore gs) = winner gs
   \<and> gameOver (zeroScore gs) = gameOver gs"
  by (simp add: resetBoard_def zeroScore_def resetGame_def resetScore_def initialState_def Let_def)

text \<open>
  Claim C8.  Resetting the board twice gives the state one reset gives, and so does
  resetting the score twice.
\<close>

theorem reset_idempotent:
  "resetBoard (resetBoard gs) = resetBoard gs \<and> zeroScore (zeroScore gs) = zeroScore gs"
  by (simp add: resetBoard_def zeroScore_def resetGame_def resetScore_def Let_def)

section \<open>Reading and writing cells\<close>

lemma js_get_js_set: "js_get (js_set brd j v) k = (if k = j then v else js_get brd k)"
  by (auto simp add: js_get_def js_set_def nth_append)

section \<open>The two winner evaluations\<close>

lemma loops_agree: "checkWinner_App_loop brd ls = checkWinner_loop brd ls"
  by (induction brd ls rule: checkWinner_loop.induct) auto

lemma loop_first_complete:
  "checkWinner_loop brd ls =
     (case find (\<lambda>(a, b, c). truthy (js_get brd a) \<and> js_get brd a = js_get brd b
                               \<and> js_get brd a = js_get brd c) ls
      of None \<Rightarrow> Null | Some (a, b, c) \<Rightarrow> js_get brd a)"
  by (induction brd ls rule: checkWinner_loop.induct) auto

text \<open>
  Claim C10.  The winner evaluation of the game component and the one of the host give
  the same result on every board: the mark of the first complete line in the order
  three rows, three columns, two diagonals, or \<open>Null\<close> when no line is complete.
\<close>

theorem checkWinner_agree:
  "checkWinner brd = checkWinner_App brd \<and> checkWinner brd = winnerOf brd"
  by (simp add: checkWinner_def checkWinner_App_def loops_agree loop_first_complete
      winnerOf_def firstCompleteLine_def lines_def lines_App_def)

section \<open>Moves\<close>

text \<open>
  Claim C2, as amended.  A move on a finished game, or on a cell that holds a mark,
  returns the state unchanged and calls nothing.  (An index outside 0..8 is not
  refused: see the counterexample.)
\<close>

theorem makeMove_noop:
  "gameOver gs \<or> truthy (js_get (board gs) index) \<Longrightarrow>
     applyMove gs index = gs \<and> snd (makeMove gs index) = []"
  by (auto simp add: applyMove_def makeMove_def)

theorem makeMove_noop_witness:
  "truthy (js_get (board afterFourMoves) 3)
   \<and> applyMove afterFourMoves 3 = afterFourMoves \<and> snd (makeMove afterFourMoves 3) = []"
proof -
  have h: "truthy (js_get (board afterFourMoves) 3)" by code_simp
  then have "gameOver afterFourMoves \<or> truthy (js_get (board afterFourMoves) 3)" ..
  from makeMove_noop [OF this] h show ?thesis by simp
qed

text \<open>On the initial state a move at index 9 is outside 0..8 and still takes effect:
  the board grows to ten cells and the turn passes to O.\<close>

theorem makeMove_out_of_range_counterexample:
  "\<not> (9::nat) < 9
   \<and> applyMove initialState 9 \<noteq> initialState
   \<and> board (applyMove initialState 9) = replicate 9 Null @ [Str ''X'']
   \<and> currentPlayer (applyMove initialState 9) = MarkO"
  by code_simp

text \<open>
  Claim C1, as amended.  A move that satisfies the preconditions passes the turn to
  the other mark, whether or not it ends the game.
\<close>

theorem currentPlayer_flips:
  "\<not> gameOver gs \<Longrightarrow> index < 9 \<Longrightarrow> \<not> truthy (js_get (board gs) index) \<Longrightarrow>
     currentPlayer (applyMove gs index) = (if currentPlayer gs = MarkX then MarkO else MarkX)
     \<and> currentPlayer (applyMove gs index) \<noteq> currentPlayer gs"
  by (simp add: applyMove_def makeMove_def Let_def split: prod.splits)

theorem currentPlayer_flips_witness:
  "\<not> gameOver afterFourMoves \<and> (2::nat) < 9 \<and> \<not> truthy (js_get (board afterFourMoves) 2)
   \<and> currentPlayer afterFourMoves = MarkX
   \<and> currentPlayer (applyMove afterFourMoves 2) = MarkO"
proof -
  have a: "\<not> gameOver afterFourMoves" by code_simp
  have b: "(2::nat) < 9" by simp
  have c: "\<not> truthy (js_get (board afterFourMoves) 2)" by code_simp
  have d: "currentPlayer afterFourMoves = MarkX" by code_simp
  from currentPlayer_flips [OF a b c] a b c d show ?thesis by simp
qed

text \<open>With X at 0 and 1 and O at 3 and 4, X's move at cell 2 satisfies the
  preconditions and ends the game, and the current player is O afterwards.\<close>

theorem currentPlayer_game_end_counterexample:
  "\<not> gameOver afterFourMoves \<and> \<not> truthy (js_get (board afterFourMoves) 2)
   \<and> gameOver (applyMove afterFourMoves 2)
   \<and> currentPlayer (applyMove afterFourMoves 2) \<noteq> currentPlayer afterFourMoves"
  by code_simp

text \<open>
  Claim C6.  Across a move from a state whose counters are safe integers (below
  \<open>2^53\<close>, where the counters' \<^verbatim>\<open>+= 1\<close> is exact) no counter decreases; the score
  changes exactly when the move turns \<open>gameOver\<close> from false to true, and then exactly
  one counter grows by 1: the player's when the winner is X, Albert's when it is O, the
  draws otherwise.  A board reset keeps the score.
\<close>

theorem score_counters:
  "safeScore (score gs) \<Longrightarrow>
     player (score gs) \<le> player (score (applyMove gs index))
     \<and> albert (score gs) \<le> albert (score (applyMove gs index))
     \<and> draws (score gs) \<le> draws (score (applyMove gs index))
     \<and> score (applyMove gs index) =
          (if \<not> gameOver gs \<and> gameOver (applyMove gs index) then
             (if winner (applyMove gs index) = Str ''X'' then
                (score gs)\<lparr>player := player (score gs) + 1\<rparr>
              else if winner (applyMove gs index) = Str ''O'' then
                (score gs)\<lparr>albert := albert (score gs) + 1\<rparr>
              else (score gs)\<lparr>draws := draws (score gs) + 1\<rparr>)
           else score gs)
     \<and> score (resetBoard gs) = score gs"
  by (simp add: applyMove_def makeMove_def resetBoard_def resetGame_def Let_def
      split: prod.splits)

text \<open>X's winning move at cell 2, from a score of 0, 0, 0: the player's counter becomes 1
  and the other two stay.\<close>

theorem score_counters_witness:
  "safeScore (score afterFourMoves)
   \<and> \<not> gameOver afterFourMoves \<and> gameOver (applyMove afterFourMoves 2)
   \<and> winner (applyMove afterFourMoves 2) = Str ''X''
   \<and> score (applyMove afterFourMoves 2) = \<lparr>player = 1, albert = 0, draws = 0\<rparr>"
proof -
  have z: "score afterFourMoves = \<lparr>player = 0, albert = 0, draws = 0\<rparr>" by code_simp
  have s: "safeScore (score afterFourMoves)"
    unfolding z by (simp add: safeScore_def safeInteger_def)
  have a: "\<not> gameOver afterFourMoves" by code_simp
  have b: "gameOver (applyMove afterFourMoves 2)" by code_simp
  have w: "winner (applyMove afterFourMoves 2) = Str ''X''" by code_simp
  from score_counters [OF s, of 2] a b w z s show ?thesis by simp
qed

section \<open>The invariant of the reachable states\<close>

lemma checkWinner_loop_truthy:
  "checkWinner_loop brd ls \<noteq> Null \<Longrightarrow> truthy (checkWinner_loop brd ls)"
  by (induction brd ls rule: checkWinner_loop.induct) (auto split: if_splits)

lemma empty_board_facts:
  "checkWinner (replicate 9 Null) = Null" "\<not> noEmptyCell (replicate 9 Null)"
  by code_simp+

lemma invariant_step:
  assumes "gameOver gs \<longleftrightarrow> (winner gs \<noteq> Null \<or> noEmptyCell (board gs))"
    and "winner gs = checkWinner (board gs)"
  shows "(gameOver (applyMove gs i) \<longleftrightarrow>
            (winner (applyMove gs i) \<noteq> Null \<or> noEmptyCell (board (applyMove gs i))))
         \<and> winner (applyMove gs i) = checkWinner (board (applyMove gs i))"
proof (cases "truthy (js_get (board gs) i) \<or> gameOver gs")
  case True
  then have "applyMove gs i = gs" by (simp add: applyMove_def makeMove_def)
  with assms show ?thesis by simp
next
  case False
  then show ?thesis
    using checkWinner_loop_truthy [of "js_set (board gs) i (str_of (currentPlayer gs))" lines]
    by (auto simp add: applyMove_def makeMove_def Let_def noEmptyCell_def checkWinner_def
        split: prod.splits)
qed

lemma reachable_invariant:
  "reachable gs \<Longrightarrow>
     (gameOver gs \<longleftrightarrow> (winner gs \<noteq> Null \<or> noEmptyCell (board gs)))
     \<and> winner gs = checkWinner (board gs)"
proof (induction rule: reachable.induct)
  case start
  show ?case by (simp add: initialState_def empty_board_facts)
next
  case (move gs index)
  then show ?case using invariant_step by blast
next
  case (newGame gs)
  show ?case by (simp add: resetBoard_def resetGame_def Let_def empty_board_facts)
next
  case (scoreReset gs)
  then show ?case by (simp add: zeroScore_def resetScore_def Let_def)
qed

text \<open>
  Claim C5.  In every state reachable from the initial one by moves, board resets and
  score resets, \<open>gameOver\<close> holds exactly when there is a winner or no cell of the
  board is empty, and exactly one of three cases holds: no winner and an empty cell
  left, a winner, or a full board without a winner.  The winner of the state is the
  one \<open>checkWinner\<close> finds on its board.
\<close>

theorem gameOver_invariant:
  "reachable gs \<Longrightarrow>
     (gameOver gs \<longleftrightarrow> (winner gs \<noteq> Null \<or> noEmptyCell (board gs)))
     \<and> ((winner gs = Null \<and> \<not> noEmptyCell (board gs) \<and> \<not> gameOver gs)
        \<or> (winner gs \<noteq> Null \<and> gameOver gs)
        \<or> (winner gs = Null \<and> noEmptyCell (board gs) \<and> gameOver gs))
     \<and> winner gs = checkWinner (board gs)"
  using reachable_invariant [of gs] by blast

theorem gameOver_invariant_witness:
  "reachable xHasWon \<and> gameOver xHasWon \<and> winner xHasWon = Str ''X''
   \<and> \<not> noEmptyCell (board xHasWon) \<and> winner xHasWon = checkWinner (board xHasWon)"
proof -
  have r: "reachable xHasWon"
    unfolding xHasWon_def afterFourMoves_def by (intro reachable.intros)
  have w: "winner xHasWon = Str ''X''" by code_simp
  have e: "\<not> noEmptyCell (board xHasWon)" by code_simp
  from gameOver_invariant [OF r] r w e show ?thesis by simp
qed

subsection \<open>Boards in play\<close>

text \<open>When every move is given an index of 0..8 the board stays nine cells of
  \<^verbatim>\<open>null\<close>, \<^verbatim>\<open>'X'\<close> and \<^verbatim>\<open>'O'\<close>, and on such a board a cell differs from \<^verbatim>\<open>null\<close>
  exactly when it is truthy: the draw test of \<^verbatim>\<open>makeMove\<close> and the guards
  \<^verbatim>\<open>!board[i]\<close> agree on which cells are empty.\<close>

lemma wellFormed_replicate: "wellFormed (replicate 9 Null)"
  by (simp add: wellFormed_def list_all_iff)

lemma wellFormed_move:
  assumes "wellFormed (board gs)" and "index < 9"
  shows "wellFormed (board (applyMove gs index))"
proof (cases "truthy (js_get (board gs) index) \<or> gameOver gs")
  case True
  then have "applyMove gs index = gs" by (simp add: applyMove_def makeMove_def)
  with assms show ?thesis by simp
next
  case False
  then have b: "board (applyMove gs index) = (board gs)[index := str_of (currentPlayer gs)]"
    using assms by (simp add: applyMove_def makeMove_def Let_def js_set_def wellFormed_def split: prod.splits)
  have "str_of (currentPlayer gs) = Str ''X'' \<or> str_of (currentPlayer gs) = Str ''O''"
    by (cases "currentPlayer gs") simp_all
  with assms(1) show ?thesis
    unfolding b wellFormed_def list_all_iff
    by (auto dest!: set_update_subset_insert [THEN subsetD])
qed

lemma inPlay_wellFormed: "inPlay gs \<Longrightarrow> reachable gs \<and> wellFormed (board gs)"
proof (induction rule: inPlay.induct)
  case start
  have "wellFormed (board initialState)" by (simp add: initialState_def wellFormed_replicate)
  with reachable.start show ?case by simp
next
  case (move gs index)
  then show ?case by (simp add: reachable.move wellFormed_move)
next
  case (newGame gs)
  have "wellFormed (board (resetBoard gs))"
    by (simp add: resetBoard_def resetGame_def Let_def wellFormed_replicate)
  with newGame reachable.newGame show ?case by simp
next
  case (scoreReset gs)
  have "board (zeroScore gs) = board gs"
    by (simp add: zeroScore_def resetScore_def Let_def)
  with scoreReset reachable.scoreReset show ?case by simp
qed

lemma wellFormed_full:
  assumes "wellFormed brd"
  shows "noEmptyCell brd \<longleftrightarrow> (\<forall>i<9. \<not> emptyCell brd i)"
proof -
  from assms have len: "length brd = 9"
    and cells: "\<forall>i<9. brd ! i = Null \<or> brd ! i = Str ''X'' \<or> brd ! i = Str ''O''"
    by (simp_all add: wellFormed_def list_all_length)
  have "\<forall>i<9. (brd ! i \<noteq> Null) = truthy (brd ! i)"
    using cells by auto
  then show ?thesis
    by (simp add: noEmptyCell_def emptyCell_def js_get_def list_all_length len)
qed

lemma inPlay_gameOver:
  assumes "inPlay gs"
  shows "gameOver gs \<longleftrightarrow> (winner gs \<noteq> Null \<or> (\<forall>i<9. \<not> emptyCell (board gs) i))"
proof -
  from assms have r: "reachable gs" and w: "wellFormed (board gs)"
    using inPlay_wellFormed by blast+
  from reachable_invariant [OF r] wellFormed_full [OF w] show ?thesis by simp
qed

section \<open>The opponent policy\<close>

subsection \<open>Placing a mark on a board without a complete line\<close>

lemma App_loop_Cons:
  "checkWinner_App_loop brd (l # rest) =
     (if complete brd l then js_get brd (fst l) else checkWinner_App_loop brd rest)"
  by (cases l) auto

lemma complete_truthy: "complete brd l \<Longrightarrow> truthy (js_get brd (fst l))"
  by (cases l) auto

lemma App_loop_Null: "checkWinner_App_loop brd ls = Null \<longleftrightarrow> (\<forall>l \<in> set ls. \<not> complete brd l)"
proof (induction ls)
  case Nil
  show ?case by simp
next
  case (Cons l ls)
  show ?case
  proof (cases "complete brd l")
    case True
    then have "js_get brd (fst l) \<noteq> Null" using complete_truthy by fastforce
    with True show ?thesis by (simp add: App_loop_Cons)
  next
    case False
    with Cons show ?thesis by (simp add: App_loop_Cons)
  qed
qed

lemma App_loop_uniform:
  assumes "\<forall>l \<in> set ls. complete t l \<longrightarrow> js_get t (fst l) = m"
  shows "checkWinner_App_loop t ls = (if \<exists>l \<in> set ls. complete t l then m else Null)"
  using assms
proof (induction ls)
  case Nil
  show ?case by simp
next
  case (Cons l ls)
  then show ?case by (simp add: App_loop_Cons del: checkWinner_App_loop.simps)
qed

lemma complete_after_set:
  assumes "\<not> complete brd l" and "complete (js_set brd j m) l"
  shows "js_get (js_set brd j m) (fst l) = m"
proof -
  obtain a b c where l: "l = (a, b, c)" by (cases l) auto
  show ?thesis
  proof (cases "j = a \<or> j = b \<or> j = c")
    case True
    with assms(2) show ?thesis by (auto simp add: l js_get_js_set split: if_splits)
  next
    case False
    with assms have False by (auto simp add: l js_get_js_set)
    then show ?thesis ..
  qed
qed

lemma lineOf_Bex:
  "lineOf t m \<longleftrightarrow> (\<exists>(a, b, c) \<in> set lines_App. js_get t a = m \<and> js_get t b = m \<and> js_get t c = m)"
  unfolding lineOf_def lines_App_def list_ex_iff ..

lemma placing_wins:
  assumes none: "checkWinner_App brd = Null" and m: "truthy m"
  shows "checkWinner_App (js_set brd j m) = m \<longleftrightarrow> lineOf (js_set brd j m) m"
proof -
  let ?t = "js_set brd j m"
  from none have no: "\<forall>l \<in> set lines_App. \<not> complete brd l"
    by (simp add: checkWinner_App_def App_loop_Null)
  then have uni: "\<forall>l \<in> set lines_App. complete ?t l \<longrightarrow> js_get ?t (fst l) = m"
    using complete_after_set by blast
  then have "checkWinner_App ?t = (if \<exists>l \<in> set lines_App. complete ?t l then m else Null)"
    unfolding checkWinner_App_def by (rule App_loop_uniform)
  moreover have "m \<noteq> Null" using m by auto
  ultimately have 1: "checkWinner_App ?t = m \<longleftrightarrow> (\<exists>l \<in> set lines_App. complete ?t l)" by auto
  have 2: "(\<exists>l \<in> set lines_App. complete ?t l) \<longleftrightarrow> lineOf ?t m"
  proof
    assume "\<exists>l \<in> set lines_App. complete ?t l"
    then obtain l where l: "l \<in> set lines_App" "complete ?t l" by blast
    with uni have v: "js_get ?t (fst l) = m" by blast
    obtain a b c where abc: "l = (a, b, c)" by (cases l) auto
    from l v have "js_get ?t a = m \<and> js_get ?t b = m \<and> js_get ?t c = m"
      by (auto simp add: abc)
    with l(1) show "lineOf ?t m" unfolding lineOf_Bex abc by blast
  next
    assume "lineOf ?t m"
    then obtain a b c where "(a, b, c) \<in> set lines_App"
      "js_get ?t a = m" "js_get ?t b = m" "js_get ?t c = m"
      unfolding lineOf_Bex by blast
    with m have "(a, b, c) \<in> set lines_App \<and> complete ?t (a, b, c)" by simp
    then show "\<exists>l \<in> set lines_App. complete ?t l" by blast
  qed
  from 1 2 show ?thesis by simp
qed

subsection \<open>The loops as searches for the lowest index\<close>

lemma winLoop_find:
  "winLoop brd i =
     find (\<lambda>j. \<not> truthy (js_get brd j) \<and> checkWinner_App (js_set brd j (Str ''O'')) = Str ''O'')
       [i..<9]"
proof (induction brd i rule: winLoop.induct)
  case (1 brd i)
  show ?case
  proof (cases "i < 9")
    case True
    then have "[i..<9] = i # [i + 1..<9]" by (simp add: upt_conv_Cons)
    with True 1 show ?thesis by (subst winLoop.simps) simp
  next
    case False
    then show ?thesis by (subst winLoop.simps) simp
  qed
qed

lemma blockLoop_find:
  "blockLoop brd i =
     find (\<lambda>j. \<not> truthy (js_get brd j) \<and> checkWinner_App (js_set brd j (Str ''X'')) = Str ''X'')
       [i..<9]"
proof (induction brd i rule: blockLoop.induct)
  case (1 brd i)
  show ?case
  proof (cases "i < 9")
    case True
    then have "[i..<9] = i # [i + 1..<9]" by (simp add: upt_conv_Cons)
    with True 1 show ?thesis by (subst blockLoop.simps) simp
  next
    case False
    then show ?thesis by (subst blockLoop.simps) simp
  qed
qed

lemma anyLoop_find: "anyLoop brd i = find (\<lambda>j. \<not> truthy (js_get brd j)) [i..<9]"
proof (induction brd i rule: anyLoop.induct)
  case (1 brd i)
  show ?case
  proof (cases "i < 9")
    case True
    then have "[i..<9] = i # [i + 1..<9]" by (simp add: upt_conv_Cons)
    with True 1 show ?thesis by (subst anyLoop.simps) simp
  next
    case False
    then show ?thesis by (subst anyLoop.simps) simp
  qed
qed

lemma cornerLoop_find: "cornerLoop brd cs = find (\<lambda>j. \<not> truthy (js_get brd j)) cs"
  by (induction cs) simp_all

lemma emptyCell_fun: "emptyCell brd = (\<lambda>j. \<not> truthy (js_get brd j))"
  by (rule ext) (simp add: emptyCell_def)

lemma win_stage:
  assumes "checkWinner_App brd = Null"
  shows "winLoop brd 0 = find (completesLine brd (Str ''O'')) [0..<9]"
  unfolding winLoop_find
  by (rule find_cong) (simp_all add: completesLine_def emptyCell_def placing_wins[OF assms])

lemma block_stage:
  assumes "checkWinner_App brd = Null"
  shows "blockLoop brd 0 = find (completesLine brd (Str ''X'')) [0..<9]"
  unfolding blockLoop_find
  by (rule find_cong) (simp_all add: completesLine_def emptyCell_def placing_wins[OF assms])

lemma stages_as_option:
  "(case A of Some i \<Rightarrow> int i | None \<Rightarrow>
     (case B of Some i \<Rightarrow> int i | None \<Rightarrow>
       (if C then 4 else
         (case D of Some i \<Rightarrow> int i | None \<Rightarrow>
           (case E of Some i \<Rightarrow> int i | None \<Rightarrow> - 1)))))
   = (case (case A of Some i \<Rightarrow> Some i | None \<Rightarrow>
             (case B of Some i \<Rightarrow> Some i | None \<Rightarrow>
               (if C then Some 4 else
                 (case D of Some i \<Rightarrow> Some i | None \<Rightarrow> E))))
      of Some i \<Rightarrow> int i | None \<Rightarrow> - 1)"
  by (simp split: option.splits)

lemma policy_refines:
  assumes "checkWinner_App brd = Null"
  shows "getAlbertMove brd =
    (case chooseMove_reference brd (Str ''O'') (Str ''X'') of Some i \<Rightarrow> int i | None \<Rightarrow> - 1)"
  unfolding getAlbertMove_def chooseMove_reference_def win_stage[OF assms] block_stage[OF assms]
    anyLoop_find cornerLoop_find emptyCell_fun
  by (rule stages_as_option)

subsection \<open>The answer is an empty cell, or there is none\<close>

text \<open>\<open>find\<close> over the indices in ascending order answers the lowest one.\<close>

lemma find_upt_lowest:
  "find P [0..<n] = Some i \<longleftrightarrow> i < n \<and> P i \<and> (\<forall>j<i. \<not> P j)"
  by (auto simp add: find_Some_iff)

lemma find_upt_bound: "find P [0..<n] = Some i \<Longrightarrow> i < n \<and> P i"
  by (auto simp add: find_Some_iff)

lemma no_move_iff: "getAlbertMove brd = - 1 \<longleftrightarrow> (\<forall>i<9. \<not> emptyCell brd i)"
proof
  assume "getAlbertMove brd = - 1"
  then have "anyLoop brd 0 = None"
    by (simp add: getAlbertMove_def split: option.splits if_splits)
  then show "\<forall>i<9. \<not> emptyCell brd i"
    by (simp add: anyLoop_find find_None_iff emptyCell_def)
next
  assume full: "\<forall>i<9. \<not> emptyCell brd i"
  then have "\<forall>i<9. truthy (js_get brd i)" by (simp add: emptyCell_def)
  then have "winLoop brd 0 = None" "blockLoop brd 0 = None" "truthy (js_get brd 4)"
    "cornerLoop brd [0, 2, 6, 8] = None" "anyLoop brd 0 = None"
    by (simp_all add: winLoop_find blockLoop_find anyLoop_find find_None_iff emptyCell_def)
  then show "getAlbertMove brd = - 1" by (simp add: getAlbertMove_def)
qed

lemma stages_result:
  assumes "r = (case A of Some i \<Rightarrow> int i | None \<Rightarrow>
     (case B of Some i \<Rightarrow> int i | None \<Rightarrow>
       (if C then 4 else
         (case D of Some i \<Rightarrow> int i | None \<Rightarrow>
           (case E of Some i \<Rightarrow> int i | None \<Rightarrow> - 1)))))"
    and "r \<noteq> - 1"
    and "\<And>i. A = Some i \<Longrightarrow> Q i" and "\<And>i. B = Some i \<Longrightarrow> Q i" and "C \<Longrightarrow> Q 4"
    and "\<And>i. D = Some i \<Longrightarrow> Q i" and "\<And>i. E = Some i \<Longrightarrow> Q i"
  shows "\<exists>i. r = int i \<and> Q i"
proof (cases A)
  case (Some i)
  with assms(1,3) show ?thesis by auto
next
  case nA: None
  show ?thesis
  proof (cases B)
    case (Some i)
    with nA assms(1,4) show ?thesis by auto
  next
    case nB: None
    show ?thesis
    proof (cases C)
      case True
      with nA nB assms(1,5) show ?thesis by auto
    next
      case nC: False
      show ?thesis
      proof (cases D)
        case (Some i)
        with nA nB nC assms(1,6) show ?thesis by auto
      next
        case nD: None
        show ?thesis
        proof (cases E)
          case (Some i)
          with nA nB nC nD assms(1,7) show ?thesis by auto
        next
          case None
          with nA nB nC nD assms(1,2) show ?thesis by simp
        qed
      qed
    qed
  qed
qed

lemma move_is_empty:
  assumes "getAlbertMove brd \<noteq> - 1"
  shows "0 \<le> getAlbertMove brd \<and> getAlbertMove brd < 9 \<and> emptyCell brd (nat (getAlbertMove brd))"
proof -
  have w: "\<And>i. winLoop brd 0 = Some i \<Longrightarrow> i < 9 \<and> emptyCell brd i"
    unfolding winLoop_find by (drule find_upt_bound) (simp add: emptyCell_def)
  have b: "\<And>i. blockLoop brd 0 = Some i \<Longrightarrow> i < 9 \<and> emptyCell brd i"
    unfolding blockLoop_find by (drule find_upt_bound) (simp add: emptyCell_def)
  have c: "\<And>i. cornerLoop brd [0, 2, 6, 8] = Some i \<Longrightarrow> i < 9 \<and> emptyCell brd i"
    by (auto simp add: emptyCell_def split: if_splits)
  have a: "\<And>i. anyLoop brd 0 = Some i \<Longrightarrow> i < 9 \<and> emptyCell brd i"
    unfolding anyLoop_find by (drule find_upt_bound) (simp add: emptyCell_def)
  have m: "\<not> truthy (js_get brd 4) \<Longrightarrow> (4::nat) < 9 \<and> emptyCell brd 4"
    by (simp add: emptyCell_def)
  obtain i where "getAlbertMove brd = int i" "i < 9 \<and> emptyCell brd i"
    using stages_result[where Q = "\<lambda>i. i < 9 \<and> emptyCell brd i", OF getAlbertMove_def assms w b m c a]
    by blast
  then show ?thesis by simp
qed

text \<open>
  Claim C3, as amended.  On every board that has no complete line (the boards the host
  calls the policy on: it does so only while the game is not over), \<open>getAlbertMove\<close>
  is the reference priority function for the marks O and X: the lowest empty cell that
  completes a line for O, else the lowest empty cell that completes a line for X, else
  cell 4 if empty, else the lowest empty corner of 0, 2, 6, 8, else the lowest empty
  cell.  On every board it answers \<open>-1\<close> exactly when none of the cells 0..8 is
  empty, and any other answer is an empty cell of 0..8.
\<close>

theorem getAlbertMove_reference:
  "(checkWinner_App brd = Null \<longrightarrow>
      getAlbertMove brd =
        (case chooseMove_reference brd (Str ''O'') (Str ''X'') of
           Some i \<Rightarrow> int i | None \<Rightarrow> - 1))
   \<and> (getAlbertMove brd = - 1 \<longleftrightarrow> (\<forall>i<9. \<not> emptyCell brd i))
   \<and> (getAlbertMove brd \<noteq> - 1 \<longrightarrow>
        0 \<le> getAlbertMove brd \<and> getAlbertMove brd < 9
        \<and> emptyCell brd (nat (getAlbertMove brd)))"
  using policy_refines [of brd] no_move_iff [of brd] move_is_empty [of brd] by blast

theorem getAlbertMove_reference_witness:
  "checkWinner_App openingBoard = Null
   \<and> chooseMove_reference openingBoard (Str ''O'') (Str ''X'') = Some 4
   \<and> getAlbertMove openingBoard = 4
   \<and> emptyCell openingBoard (nat (getAlbertMove openingBoard))"
proof -
  have h: "checkWinner_App openingBoard = Null" by code_simp
  have r: "chooseMove_reference openingBoard (Str ''O'') (Str ''X'') = Some 4" by code_simp
  from getAlbertMove_reference [of openingBoard] h r
  have m: "getAlbertMove openingBoard = 4" by simp
  then have "getAlbertMove openingBoard \<noteq> - 1" by simp
  with getAlbertMove_reference [of openingBoard]
  have "emptyCell openingBoard (nat (getAlbertMove openingBoard))" by blast
  with h r m show ?thesis by simp
qed

text \<open>On a board where X already holds the top row, cell 8 is the lowest empty cell
  that completes a line for O, and \<open>getAlbertMove\<close> answers 3: \<^verbatim>\<open>checkWinner\<close> finds X's
  row first, so the first loop never sees O's line and the second accepts every empty
  cell.\<close>

theorem getAlbertMove_won_board_counterexample:
  "length wonBoard = 9
   \<and> chooseMove_reference wonBoard (Str ''O'') (Str ''X'') = Some 8
   \<and> getAlbertMove wonBoard = 3"
  by code_simp

text \<open>
  Claim C4, as amended.  On the board \<^verbatim>\<open>[O,O,_,X,X,_,_,_,_]\<close> the policy selects cell 2
  by its first rule: O at cell 2 completes the top row.  The centre is occupied, and
  cell 2 is also the lowest empty corner.
\<close>

theorem scenario_move:
  "getAlbertMove scenarioBoard = 2
   \<and> winLoop scenarioBoard 0 = Some 2
   \<and> completesLine scenarioBoard (Str ''O'') 2
   \<and> truthy (js_get scenarioBoard 4)
   \<and> cornerLoop scenarioBoard [0, 2, 6, 8] = Some 2"
  by code_simp

text \<open>On that board an immediate win (cell 2) and a block (cell 5) are both available.\<close>

theorem scenario_win_available_counterexample:
  "\<not> (winLoop scenarioBoard 0 = None \<and> blockLoop scenarioBoard 0 = None)
   \<and> winLoop scenarioBoard 0 = Some 2
   \<and> blockLoop scenarioBoard 0 = Some 5
   \<and> completesLine scenarioBoard (Str ''X'') 5"
  by code_simp

section \<open>Pending moves and resets\<close>

lemma newGame_keeps_timers: "timers (step app NewGameClick) = timers app"
  by (simp add: afterRender_def commit_def resetGame_def Let_def handleGameMove_def
      albertEffect_def split: option.splits)

lemma resetScore_keeps_timers:
  "take (length (timers app)) (timers (step app ResetScoreClick)) = timers app"
  by (simp add: afterRender_def commit_def resetScore_def Let_def handleGameMove_def deps_def)

text \<open>
  Claim C9 fails on the code.  While Albert's move is pending, a click on \<^emph>\<open>New Game\<close>
  clears the board and leaves the timeout pending.  The timeout then runs and stores
  cell 2, the block it chose for the board before the reset; at X's first click on the
  new board the effect plays it at once, where the policy would choose cell 4.
\<close>

theorem stale_move_after_reset:
  "timers albertThinking = [[Str ''X'', Str ''X'', Null, Null, Str ''O'', Null, Null, Null, Null]]
   \<and> timers (run albertThinking [NewGameClick]) = timers albertThinking
   \<and> board (game (run albertThinking [NewGameClick])) = replicate 9 Null
   \<and> albertNextMove (run albertThinking [NewGameClick, TimerFires]) = Some 2
   \<and> board (game (run albertThinking [NewGameClick, TimerFires, CellClick 0]))
       = [Str ''X'', Null, Str ''O'', Null, Null, Null, Null, Null, Null]
   \<and> getAlbertMove [Str ''X'', Null, Null, Null, Null, Null, Null, Null, Null] = 4"
  by code_simp

end
